theory Spec2Isabelle
  imports Main "HOL-Library.AList"
begin

section \<open>The web plugin of beets: \<^verbatim>\<open>beetsplug/web/__init__.py\<close>\<close>

text \<open>
  The plugin serves the tracks (\<^verbatim>\<open>Item\<close>) and releases (\<^verbatim>\<open>Album\<close>) of a beets library as
  JSON. This theory embeds its utility functions: \<^verbatim>\<open>_rep\<close>, \<^verbatim>\<open>json_generator\<close>,
  \<^verbatim>\<open>_extract_ids\<close> and the three responder factories \<^verbatim>\<open>resource\<close>, \<^verbatim>\<open>resource_query\<close> and
  \<^verbatim>\<open>resource_list\<close>. A leading underscore is not an Isabelle name, so \<^verbatim>\<open>_rep\<close> is
  \<open>rep\<close> and \<^verbatim>\<open>_extract_ids\<close> is \<open>extract_ids\<close>.
\<close>

subsection \<open>Python values, errors and strings\<close>

text \<open>
  The values a record field or a JSON document holds. A \<^verbatim>\<open>dict\<close> is an association list in
  iteration order. A \<^verbatim>\<open>float\<close> is held as the text that \<^verbatim>\<open>repr\<close> gives it: the plugin
  never computes with one.
\<close>

datatype pyval =
    PNone
  | PBool bool
  | PInt int
  | PFloat string
  | PStr string
  | PList "pyval list"
  | PDict "(string \<times> pyval) list"

type_synonym pydict = "(string \<times> pyval) list"

text \<open>
  The exceptions the modelled code can raise. \<open>Abort n\<close> is the HTTP exception of
  \<^verbatim>\<open>flask.abort(n)\<close>.
\<close>

datatype error = KeyError string | AttributeError | TypeError | OSError | Abort nat

text \<open>
  \<^verbatim>\<open>s.split(sep)\<close> with a one-character separator: the pieces between the separators, so
  \<open>n\<close> separators give \<open>n + 1\<close> pieces and the empty string gives one empty piece.
\<close>

fun split :: "char \<Rightarrow> string \<Rightarrow> string list" where
  "split sep [] = [[]]"
| "split sep (c # cs) =
     (if c = sep then [] # split sep cs
      else (case split sep cs of
              [] \<Rightarrow> [[c]]
            | t # ts \<Rightarrow> (c # t) # ts))"

text \<open>\<^verbatim>\<open>sep.join(parts)\<close>.\<close>

fun join :: "string \<Rightarrow> string list \<Rightarrow> string" where
  "join sep [] = []"
| "join sep [t] = t"
| "join sep (t # ts) = t @ sep @ join sep ts"

text \<open>
  \<^verbatim>\<open>int(s)\<close> of Python 2, base 10, on the unicode string of a URL segment; a character of a
  \<open>string\<close> is a code point below 256. White space around the literal is ignored, one
  sign may lead, and at least one decimal digit and nothing else must follow. \<open>None\<close> is
  the \<^verbatim>\<open>ValueError\<close> that \<^verbatim>\<open>int\<close> raises on anything else.

  The white space of a unicode string below 256: the ASCII controls 9 to 13 and 28 to 31,
  the space, NEL (U+0085) and the no-break space (U+00A0). The decimal digits below 256
  are the ASCII digits.
\<close>

definition is_space :: "char \<Rightarrow> bool" where
  "is_space c = (of_char c \<in> set [9, 10, 11, 12, 13, 28, 29, 30, 31, 32, 133, 160 :: nat])"

definition is_digit :: "char \<Rightarrow> bool" where
  "is_digit c = (48 \<le> (of_char c :: nat) \<and> (of_char c :: nat) \<le> 57)"

definition digit_val :: "char \<Rightarrow> nat" where
  "digit_val c = of_char c - 48"

definition strip :: "string \<Rightarrow> string" where
  "strip s = rev (dropWhile is_space (rev (dropWhile is_space s)))"

definition digits_val :: "string \<Rightarrow> nat" where
  "digits_val ds = foldl (\<lambda>a c. 10 * a + digit_val c) 0 ds"

definition unsigned_int :: "string \<Rightarrow> nat option" where
  "unsigned_int ds = (if ds \<noteq> [] \<and> list_all is_digit ds then Some (digits_val ds) else None)"

definition py_int :: "string \<Rightarrow> int option" where
  "py_int s =
     (case strip s of
        [] \<Rightarrow> None
      | c # cs \<Rightarrow>
          if c = CHR ''-'' then map_option (\<lambda>n. - int n) (unsigned_int cs)
          else if c = CHR ''+'' then map_option int (unsigned_int cs)
          else map_option int (unsigned_int (c # cs)))"

subsection \<open>\<^verbatim>\<open>_extract_ids\<close>\<close>

text \<open>
  \<^verbatim>\<open>
  def _extract_ids(string_ids):
      ids = []
      for id in string_ids.split(','):
          try:
              ids.append(int(id))
          except ValueError:
              pass
      return ids
  \<close>
  The loop, with the list \<open>ids\<close> built so far as its state.
\<close>

fun extract_loop :: "int list \<Rightarrow> string list \<Rightarrow> int list" where
  "extract_loop ids [] = ids"
| "extract_loop ids (t # ts) =
     (case py_int t of
        Some n \<Rightarrow> extract_loop (ids @ [n]) ts
      | None \<Rightarrow> extract_loop ids ts)"

definition extract_ids :: "string \<Rightarrow> int list" where
  "extract_ids string_ids = extract_loop [] (split CHR '','' string_ids)"

subsection \<open>Library records and the file system\<close>

text \<open>
  Modelled from the spec: the classes \<^verbatim>\<open>beets.library.Item\<close> and \<^verbatim>\<open>beets.library.Album\<close> are
  not part of the plugin. A record is dict-like: \<^verbatim>\<open>dict(obj)\<close> is the mapping of its native
  fields, and \<^verbatim>\<open>obj.path\<close> reads the field \<^verbatim>\<open>path\<close>. A Track (\<open>Item\<close>) has a file-system
  path, a Release (\<open>Album\<close>) has an artwork path and its tracks, which \<^verbatim>\<open>obj.items()\<close>
  returns in order. \<open>Other\<close> is a dict-like object of any other class, for which both
  \<^verbatim>\<open>isinstance\<close> tests of \<^verbatim>\<open>_rep\<close> fail.
\<close>

datatype entity =
    Item pydict
  | Album pydict "entity list"
  | Other pydict

text \<open>
  The file system, as far as \<^verbatim>\<open>os.path.getsize\<close> sees it: the byte length of every file
  that can be probed. A path outside the domain is a missing or unreadable file.
\<close>

type_synonym filesystem = "string \<rightharpoonup> nat"

text \<open>
  Modelled from the spec: \<^verbatim>\<open>beets.util.syspath\<close> is not part of the plugin; it turns a
  path into the form the operating system takes and is the identity here.
  \<^verbatim>\<open>os.path.getsize(util.syspath(p))\<close> is the byte length of the file, \<^verbatim>\<open>OSError\<close> for a
  file that cannot be probed, and \<^verbatim>\<open>TypeError\<close> for a value that is no string. A path string
  is a file name, with no NUL character in it.
\<close>

definition getsize :: "filesystem \<Rightarrow> pyval \<Rightarrow> error + int" where
  "getsize fs p =
     (case p of
        PStr s \<Rightarrow> (case fs s of Some n \<Rightarrow> Inr (int n) | None \<Rightarrow> Inl OSError)
      | _ \<Rightarrow> Inl TypeError)"

subsection \<open>\<^verbatim>\<open>_rep\<close>\<close>

text \<open>
  \<^verbatim>\<open>
  def _rep(obj, expand=False):
      out = dict(obj)
      if isinstance(obj, beets.library.Item):
          del out['path']
          try:
              out['size'] = os.path.getsize(util.syspath(obj.path))
          except OSError:
              out['size'] = 0
          return out
      elif isinstance(obj, beets.library.Album):
          del out['artpath']
          if expand:
              out['items'] = [_rep(item) for item in obj.items()]
          return out
  \<close>
  \<^verbatim>\<open>del out[k]\<close> raises \<^verbatim>\<open>KeyError\<close> when the key is missing; \<^verbatim>\<open>out[k] = v\<close> replaces the
  value of a key or adds the key. A function that falls off its end returns \<^verbatim>\<open>None\<close>.
  \<open>rep_items\<close> is the list comprehension over the tracks; it stops at the first
  exception.
\<close>

fun rep :: "filesystem \<Rightarrow> entity \<Rightarrow> bool \<Rightarrow> error + pyval"
  and rep_items :: "filesystem \<Rightarrow> entity list \<Rightarrow> error + pyval list" where
  "rep fs (Item flds) expand =
     (let out = flds in
      case map_of out ''path'' of
        None \<Rightarrow> Inl (KeyError ''path'')
      | Some _ \<Rightarrow>
          let out = AList.delete ''path'' out in
          (case map_of flds ''path'' of
             None \<Rightarrow> Inl AttributeError
           | Some path \<Rightarrow>
               (case getsize fs path of
                  Inr n \<Rightarrow> Inr (PDict (AList.update ''size'' (PInt n) out))
                | Inl OSError \<Rightarrow> Inr (PDict (AList.update ''size'' (PInt 0) out))
                | Inl e \<Rightarrow> Inl e)))"
| "rep fs (Album flds tracks) expand =
     (let out = flds in
      case map_of out ''artpath'' of
        None \<Rightarrow> Inl (KeyError ''artpath'')
      | Some _ \<Rightarrow>
          let out = AList.delete ''artpath'' out in
          if expand then
            (case rep_items fs tracks of
               Inl e \<Rightarrow> Inl e
             | Inr reps \<Rightarrow> Inr (PDict (AList.update ''items'' (PList reps) out)))
          else Inr (PDict out))"
| "rep fs (Other flds) expand = (let out = flds in Inr PNone)"
| "rep_items fs [] = Inr []"
| "rep_items fs (item # items) =
     (case rep fs item False of
        Inl e \<Rightarrow> Inl e
      | Inr r \<Rightarrow>
          (case rep_items fs items of
             Inl e \<Rightarrow> Inl e
           | Inr rs \<Rightarrow> Inr (r # rs)))"

subsection \<open>\<^verbatim>\<open>json.dumps\<close>\<close>

text \<open>
  \<^verbatim>\<open>json.dumps\<close> with its default arguments: the separators are \<^verbatim>\<open>", "\<close> and \<^verbatim>\<open>": "\<close>, the
  characters outside the printable ASCII range are escaped, and a dict is written in
  its iteration order. A finite \<^verbatim>\<open>float\<close> is written as \<^verbatim>\<open>repr\<close> gives it, and the three
  others as \<^verbatim>\<open>NaN\<close>, \<^verbatim>\<open>Infinity\<close> and \<^verbatim>\<open>-Infinity\<close>.
\<close>

fun nat_str :: "nat \<Rightarrow> string" where
  "nat_str n =
     (if n < 10 then [char_of (48 + n)]
      else nat_str (n div 10) @ [char_of (48 + n mod 10)])"

declare nat_str.simps [simp del]

definition int_str :: "int \<Rightarrow> string" where
  "int_str i = (if i < 0 then CHR ''-'' # nat_str (nat (- i)) else nat_str (nat i))"

definition hex_digit :: "nat \<Rightarrow> char" where
  "hex_digit n = (if n < 10 then char_of (48 + n) else char_of (87 + n))"

definition escape_char :: "char \<Rightarrow> string" where
  "escape_char c =
     (let n = (of_char c :: nat) in
      if n = 34 then [CHR 0x5C, CHR 0x22]
      else if n = 92 then [CHR 0x5C, CHR 0x5C]
      else if n = 10 then [CHR 0x5C, CHR ''n'']
      else if n = 13 then [CHR 0x5C, CHR ''r'']
      else if n = 9 then [CHR 0x5C, CHR ''t'']
      else if n = 8 then [CHR 0x5C, CHR ''b'']
      else if n = 12 then [CHR 0x5C, CHR ''f'']
      else if 32 \<le> n \<and> n \<le> 126 then [c]
      else [CHR 0x5C, CHR ''u'', CHR ''0'', CHR ''0'', hex_digit (n div 16), hex_digit (n mod 16)])"

definition dumps_str :: "string \<Rightarrow> string" where
  "dumps_str s = [CHR 0x22] @ concat (map escape_char s) @ [CHR 0x22]"

fun dumps :: "pyval \<Rightarrow> string"
  and dumps_elems :: "pyval list \<Rightarrow> string list"
  and dumps_pairs :: "pydict \<Rightarrow> string list" where
  "dumps PNone = ''null''"
| "dumps (PBool b) = (if b then ''true'' else ''false'')"
| "dumps (PInt i) = int_str i"
| "dumps (PFloat r) =
     (if r = ''nan'' then ''NaN''
      else if r = ''inf'' then ''Infinity''
      else if r = ''-inf'' then ''-Infinity''
      else r)"
| "dumps (PStr s) = dumps_str s"
| "dumps (PList xs) = ''['' @ join '', '' (dumps_elems xs) @ '']''"
| "dumps (PDict kvs) = ''{'' @ join '', '' (dumps_pairs kvs) @ ''}''"
| "dumps_elems [] = []"
| "dumps_elems (x # xs) = dumps x # dumps_elems xs"
| "dumps_pairs [] = []"
| "dumps_pairs (kv # kvs) = (dumps_str (fst kv) @ '': '' @ dumps (snd kv)) # dumps_pairs kvs"

subsection \<open>\<^verbatim>\<open>json_generator\<close>\<close>

text \<open>
  \<^verbatim>\<open>
  def json_generator(items, root):
      yield '{"%s":[' % root
      first = True
      for item in items:
          if first:
              first = False
          else:
              yield ','
          yield json.dumps(_rep(item))
      yield ']}'
  \<close>
  A run of the generator to its end is the list of the fragments it yields, or the
  exception that \<^verbatim>\<open>_rep\<close> raises on the way. \<open>json_loop\<close> is the \<^verbatim>\<open>for\<close> loop with the
  flag \<open>first\<close> as its state.
\<close>

fun json_loop :: "filesystem \<Rightarrow> bool \<Rightarrow> entity list \<Rightarrow> error + string list" where
  "json_loop fs first [] = Inr []"
| "json_loop fs first (item # items) =
     (case rep fs item False of
        Inl e \<Rightarrow> Inl e
      | Inr r \<Rightarrow>
          (case json_loop fs False items of
             Inl e \<Rightarrow> Inl e
           | Inr rest \<Rightarrow> Inr ((if first then [] else ['','']) @ [dumps r] @ rest)))"

definition json_generator :: "filesystem \<Rightarrow> entity list \<Rightarrow> string \<Rightarrow> error + string list" where
  \<open>json_generator fs items root =
     (case json_loop fs True items of
        Inl e \<Rightarrow> Inl e
      | Inr body \<Rightarrow> Inr ([''{"'' @ root @ ''":[''] @ body @ ['']}'']))\<close>

text \<open>
  The eager serialization that the specification compares the generator with: the text
  \<^verbatim>\<open>{"<root>":[<entity>,<entity>,...]}\<close> of the serialized entities, with a comma between
  two neighbours and nowhere else.
\<close>

definition eager_json :: "string \<Rightarrow> string list \<Rightarrow> string" where
  \<open>eager_json root ents = ''{"'' @ root @ ''":['' @ join '','' ents @ '']}''\<close>

subsection \<open>The library and the responses\<close>

text \<open>
  Modelled from the spec: the backend \<^verbatim>\<open>g.lib\<close> is not part of the plugin. It looks a track
  or a release up by its id (\<^verbatim>\<open>None\<close> when there is none), enumerates all tracks
  (\<^verbatim>\<open>items()\<close>) and all releases (\<^verbatim>\<open>albums()\<close>), and answers a query, given as a list of
  strings (\<^verbatim>\<open>items(queries)\<close>).
\<close>

record library =
  lib_get_item :: "int \<Rightarrow> entity option"
  lib_get_album :: "int \<Rightarrow> entity option"
  lib_items :: "entity list"
  lib_albums :: "entity list"
  lib_items_query :: "string list \<Rightarrow> entity list"

text \<open>
  What a responder returns: the response of \<^verbatim>\<open>flask.jsonify\<close> for a mapping, or a response
  whose body is a generator that the server runs afterwards. The generator is held as
  its run: the fragments, or the exception that ends it. Both have the MIME type
  \<^verbatim>\<open>application/json\<close>.
\<close>

datatype response =
    Jsonified pydict
  | Streamed "error + string list"





text \<open>
  \<^verbatim>\<open>
  def resource_query(name):
      def make_responder(query_func):
          def responder(query):
              parts = query.split('/')
              entities = query_func(parts)
              return app.response_class(
                      json_generator(entities, root='results'),
                      mimetype='application/json')
  \<close>
\<close>

definition resource_query ::
  "string \<Rightarrow> filesystem \<Rightarrow> (string list \<Rightarrow> entity list) \<Rightarrow> string \<Rightarrow> response" where
  "resource_query name fs query_func query =
     (let parts = split CHR ''/'' query;
          entities = query_func parts
      in Streamed (json_generator fs entities ''results''))"

text \<open>
  \<^verbatim>\<open>
  def resource_list(name):
      def make_responder(list_all):
          def responder():
              return app.response_class(
                      json_generator(g.lib.items(), root=name),
                      mimetype='application/json')
  \<close>
  The responder reads the library \<^verbatim>\<open>g.lib\<close> of the request; the decorated function
  \<^verbatim>\<open>list_all\<close> (here \<open>list_all_fn\<close>) reads it too, when it is called.
\<close>

definition resource_list ::
  "string \<Rightarrow> filesystem \<Rightarrow> library \<Rightarrow> (library \<Rightarrow> entity list) \<Rightarrow> response" where
  "resource_list name fs lib list_all_fn = Streamed (json_generator fs (lib_items lib) name)"


definition all_items :: "filesystem \<Rightarrow> library \<Rightarrow> response" where
  "all_items fs lib = resource_list ''items'' fs lib (\<lambda>lib. lib_items lib)"

definition item_query :: "filesystem \<Rightarrow> library \<Rightarrow> string \<Rightarrow> response" where
  "item_query fs lib = resource_query ''items'' fs (\<lambda>queries. lib_items_query lib queries)"


definition all_albums :: "filesystem \<Rightarrow> library \<Rightarrow> response" where
  "all_albums fs lib = resource_list ''albums'' fs lib (\<lambda>lib. lib_albums lib)"

subsection \<open>\<^verbatim>\<open>_rep\<close> over a store of objects\<close>

text \<open>
  To say that \<^verbatim>\<open>_rep\<close> leaves its argument alone, the objects get addresses. The store is
  the list of the field mappings of all dict-like objects, records and dicts alike; an
  address is an index into it, and a new object is appended. An \<open>obj\<close> is a reference to
  a record: its address, its class, and for a release the tracks that \<^verbatim>\<open>obj.items()\<close>
  returns.

  \<open>rep_st\<close> is \<^verbatim>\<open>_rep\<close> again, statement by statement, on the store: \<^verbatim>\<open>dict(obj)\<close> allocates
  a copy of the mapping at \<open>a\<close> and \<open>out\<close> is its address, \<^verbatim>\<open>del out[k]\<close> and
  \<^verbatim>\<open>out[k] = v\<close> update the mapping at \<open>out\<close>, and \<^verbatim>\<open>obj.path\<close> reads the mapping at \<open>a\<close> as
  it is at that moment. The result is the reference \<open>out\<close>, or \<^verbatim>\<open>None\<close>, and the store
  after the call, also when the call raises. The list of the tracks' projections is a
  list of references; \<^verbatim>\<open>out['items']\<close> holds the values they refer to when it is
  assigned. An address outside the store is no object, which Python cannot produce.
\<close>

type_synonym addr = nat
type_synonym store = "pydict list"

datatype obj =
    ItemRef addr
  | AlbumRef addr "obj list"
  | OtherRef addr

definition deref :: "store \<Rightarrow> addr option \<Rightarrow> pyval" where
  "deref h r = (case r of None \<Rightarrow> PNone | Some a \<Rightarrow> PDict (h ! a))"

fun rep_st :: "filesystem \<Rightarrow> obj \<Rightarrow> bool \<Rightarrow> store \<Rightarrow> (error + addr option) \<times> store"
  and rep_items_st :: "filesystem \<Rightarrow> obj list \<Rightarrow> store \<Rightarrow> (error + addr option list) \<times> store" where
  "rep_st fs (ItemRef a) expand h =
     (if length h \<le> a then (Inl TypeError, h)
      else
        let out = length h; h = h @ [h ! a] in
        case map_of (h ! out) ''path'' of
          None \<Rightarrow> (Inl (KeyError ''path''), h)
        | Some _ \<Rightarrow>
            let h = h[out := AList.delete ''path'' (h ! out)] in
            (case map_of (h ! a) ''path'' of
               None \<Rightarrow> (Inl AttributeError, h)
             | Some path \<Rightarrow>
                 (case getsize fs path of
                    Inr n \<Rightarrow>
                      (Inr (Some out), h[out := AList.update ''size'' (PInt n) (h ! out)])
                  | Inl OSError \<Rightarrow>
                      (Inr (Some out), h[out := AList.update ''size'' (PInt 0) (h ! out)])
                  | Inl e \<Rightarrow> (Inl e, h))))"
| "rep_st fs (AlbumRef a tracks) expand h =
     (if length h \<le> a then (Inl TypeError, h)
      else
        let out = length h; h = h @ [h ! a] in
        case map_of (h ! out) ''artpath'' of
          None \<Rightarrow> (Inl (KeyError ''artpath''), h)
        | Some _ \<Rightarrow>
            let h = h[out := AList.delete ''artpath'' (h ! out)] in
            if expand then
              (case rep_items_st fs tracks h of
                 (Inl e, h) \<Rightarrow> (Inl e, h)
               | (Inr reps, h) \<Rightarrow>
                   (Inr (Some out),
                    h[out := AList.update ''items'' (PList (map (deref h) reps)) (h ! out)]))
            else (Inr (Some out), h))"
| "rep_st fs (OtherRef a) expand h =
     (if length h \<le> a then (Inl TypeError, h)
      else
        let out = length h; h = h @ [h ! a] in
        (Inr None, h))"
| "rep_items_st fs [] h = (Inr [], h)"
| "rep_items_st fs (item # items) h =
     (case rep_st fs item False h of
        (Inl e, h) \<Rightarrow> (Inl e, h)
      | (Inr r, h) \<Rightarrow>
          (case rep_items_st fs items h of
             (Inl e, h) \<Rightarrow> (Inl e, h)
           | (Inr rs, h) \<Rightarrow> (Inr (r # rs), h)))"

text \<open>
  The record that a reference stands for in a store, whether all addresses of a
  reference are objects of a store, and the value of a result in its store.
\<close>

fun entity_of :: "store \<Rightarrow> obj \<Rightarrow> entity" where
  "entity_of h (ItemRef a) = Item (h ! a)"
| "entity_of h (AlbumRef a tracks) = Album (h ! a) (map (entity_of h) tracks)"
| "entity_of h (OtherRef a) = Other (h ! a)"

fun valid :: "store \<Rightarrow> obj \<Rightarrow> bool" where
  "valid h (ItemRef a) = (a < length h)"
| "valid h (AlbumRef a tracks) = (a < length h \<and> list_all (valid h) tracks)"
| "valid h (OtherRef a) = (a < length h)"

definition result_of :: "(error + addr option) \<times> store \<Rightarrow> error + pyval" where
  "result_of x = (case x of (Inl e, h) \<Rightarrow> Inl e | (Inr r, h) \<Rightarrow> Inr (deref h r))"

definition results_of :: "(error + addr option list) \<times> store \<Rightarrow> error + pyval list" where
  "results_of x = (case x of (Inl e, h) \<Rightarrow> Inl e | (Inr refs, h) \<Rightarrow> Inr (map (deref h) refs))"

subsection \<open>An example library\<close>

text \<open>
  Two tracks with files of 1000 and 2000 bytes, and one release that holds both.
\<close>

definition example_fs :: filesystem where
  "example_fs = [''A.mp3'' \<mapsto> 1000, ''B.mp3'' \<mapsto> 2000]"

definition track1 :: entity where
  "track1 = Item [(''id'', PInt 1), (''path'', PStr ''A.mp3'')]"

definition track2 :: entity where
  "track2 = Item [(''id'', PInt 2), (''path'', PStr ''B.mp3'')]"

definition release1 :: entity where
  "release1 = Album [(''id'', PInt 10), (''artpath'', PStr ''cover.jpg'')] [track1, track2]"

definition example_lib :: library where
  "example_lib =
     \<lparr> lib_get_item = (\<lambda>i. if i = 1 then Some track1 else if i = 2 then Some track2 else None),
       lib_get_album = (\<lambda>i. if i = 10 then Some release1 else None),
       lib_items = [track1, track2],
       lib_albums = [release1],
       lib_items_query = (\<lambda>q. if q = [''B''] then [track2] else []) \<rparr>"

text \<open>The same records in a store: the tracks at 0 and 1, the release at 2.\<close>

definition example_store :: store where
  "example_store =
     [[(''id'', PInt 1), (''path'', PStr ''A.mp3'')],
      [(''id'', PInt 2), (''path'', PStr ''B.mp3'')],
      [(''id'', PInt 10), (''artpath'', PStr ''cover.jpg'')]]"

definition example_obj :: obj where
  "example_obj = AlbumRef 2 [ItemRef 0, ItemRef 1]"

section \<open>Properties\<close>

subsection \<open>Strings\<close>

lemma split_not_Nil: "split sep s \<noteq> []"
  by (induction s) (auto split: list.splits)

lemma join_Cons: "ts \<noteq> [] \<Longrightarrow> join sep (t # ts) = t @ sep @ join sep ts"
  by (cases ts) simp_all

lemma join_split: "join [sep] (split sep s) = s"
proof (induction s)
  case Nil
  show ?case by simp
next
  case (Cons c cs)
  obtain t ts where ts: "split sep cs = t # ts"
    using split_not_Nil [of sep cs] by (cases "split sep cs") auto
  show ?case
  proof (cases "c = sep")
    case True
    then show ?thesis using Cons ts by (simp add: join_Cons)
  next
    case False
    then show ?thesis using Cons ts by (cases ts) auto
  qed
qed

lemma split_no_sep: "t \<in> set (split sep s) \<Longrightarrow> sep \<notin> set t"
proof (induction s arbitrary: t)
  case Nil
  then show ?case by simp
next
  case (Cons c cs)
  then show ?case
    by (cases "split sep cs") (auto split: if_splits)
qed

subsection \<open>The id-list parser\<close>

lemma extract_loop_map_filter: "extract_loop ids ts = ids @ List.map_filter py_int ts"
  by (induction ts arbitrary: ids) (auto simp: List.map_filter_simps split: option.splits)

lemma split_append: "split sep (a @ sep # b) = split sep a @ split sep b"
proof (induction a)
  case Nil
  show ?case by simp
next
  case (Cons c a)
  obtain t ts where "split sep a = t # ts"
    using split_not_Nil [of sep a] by (cases "split sep a") auto
  with Cons show ?case by auto
qed

lemma map_filter_append:
  "List.map_filter f (xs @ ys) = List.map_filter f xs @ List.map_filter f ys"
  by (simp add: List.map_filter_def)

lemma count_list_map_filter:
  "count_list (List.map_filter f ts) n = length (filter (\<lambda>t. f t = Some n) ts)"
  by (induction ts) (auto simp: List.map_filter_simps split: option.splits)

text \<open>
  C3. The id-list parser returns the integers of the comma-separated tokens that \<^verbatim>\<open>int\<close>
  accepts, in input order, and leaves the other tokens out; \<^verbatim>\<open>"3,x,5,,7"\<close> gives
  \<^verbatim>\<open>[3, 5, 7]\<close> and the empty string gives the empty list. The parser is a total function
  into lists: the only exception of the loop body, \<^verbatim>\<open>ValueError\<close>, is the \<open>None\<close> of
  \<open>py_int\<close> and is skipped.
\<close>

theorem extract_ids_tokens:
  "extract_ids s = List.map_filter py_int (split CHR '','' s)
   \<and> extract_ids ''3,x,5,,7'' = [3, 5, 7]
   \<and> extract_ids '''' = []"
proof -
  have "extract_ids s = List.map_filter py_int (split CHR '','' s)"
    by (simp add: extract_ids_def extract_loop_map_filter)
  moreover have "extract_ids ''3,x,5,,7'' = [3, 5, 7]"
    by code_simp
  moreover have "extract_ids '''' = []"
    by code_simp
  ultimately show ?thesis by simp
qed

text \<open>
  C5 as stated: the output of the parser has no identifier twice. The parser has no
  step that removes duplicates, and \<^verbatim>\<open>"1,1"\<close> gives \<^verbatim>\<open>[1, 1]\<close>.
\<close>

theorem extract_ids_not_distinct:
  "extract_ids ''1,1'' = [1, 1] \<and> \<not> distinct (extract_ids ''1,1'')"
  by code_simp

text \<open>
  C5, amended. The parser keeps the input order and keeps duplicates: its output is the
  list of the parsed tokens in the order of the tokens, so that an identifier occurs in
  it once for every token that parses to it, and the ids of a list that continues after
  a comma are the ids before the comma followed by the ids after it.
\<close>

theorem extract_ids_count:
  "extract_ids s = List.map_filter py_int (split CHR '','' s)
   \<and> count_list (extract_ids s) n
       = length (filter (\<lambda>t. py_int t = Some n) (split CHR '','' s))
   \<and> extract_ids (a @ '','' @ b) = extract_ids a @ extract_ids b"
proof -
  have "extract_ids s = List.map_filter py_int (split CHR '','' s)"
    by (simp add: extract_ids_def extract_loop_map_filter)
  moreover have "count_list (extract_ids s) n
       = length (filter (\<lambda>t. py_int t = Some n) (split CHR '','' s))"
    by (simp add: extract_ids_def extract_loop_map_filter count_list_map_filter)
  moreover have "extract_ids (a @ '','' @ b) = extract_ids a @ extract_ids b"
    by (simp add: extract_ids_def extract_loop_map_filter split_append map_filter_append)
  ultimately show ?thesis by simp
qed

subsection \<open>The projection\<close>

lemma rep_items_Cons_Inr:
  "rep_items fs (t # ts) = Inr rs \<longleftrightarrow>
     (\<exists>r rs'. rs = r # rs' \<and> rep fs t False = Inr r \<and> rep_items fs ts = Inr rs')"
  by (auto split: sum.splits)

lemma rep_items_list_all2:
  "rep_items fs ts = Inr rs \<longleftrightarrow> list_all2 (\<lambda>t r. rep fs t False = Inr r) ts rs"
proof (induction ts arbitrary: rs)
  case Nil
  then show ?case by auto
next
  case (Cons t ts)
  show ?case
    unfolding rep_items_Cons_Inr Cons.IH by (cases rs) auto
qed

lemma getsize_PStr:
  "getsize fs (PStr p) = (case fs p of Some b \<Rightarrow> Inr (int b) | None \<Rightarrow> Inl OSError)"
  by (simp add: getsize_def)

lemma rep_Item_PStr:
  assumes "map_of flds ''path'' = Some (PStr p)"
  shows "rep fs (Item flds) expand =
    Inr (PDict (AList.update ''size'' (PInt (case fs p of Some b \<Rightarrow> int b | None \<Rightarrow> 0))
           (AList.delete ''path'' flds)))"
  using assms by (simp add: getsize_PStr split: option.splits)

lemma rep_Album_without_items:
  assumes "map_of flds ''artpath'' = Some v"
  shows "rep fs (Album flds tracks) False = Inr (PDict (AList.delete ''artpath'' flds))"
  using assms by simp

lemma rep_Album_with_items:
  assumes "map_of flds ''artpath'' = Some v" and "rep_items fs tracks = Inr reps"
  shows "rep fs (Album flds tracks) True =
    Inr (PDict (AList.update ''items'' (PList reps) (AList.delete ''artpath'' flds)))"
  using assms by simp

text \<open>
  C6. The projection of a Track, a record with a field \<^verbatim>\<open>path\<close> that holds a path string,
  is a mapping without the key \<^verbatim>\<open>path\<close> and with the key \<^verbatim>\<open>size\<close>: the byte length of the
  file, and 0 when the file cannot be probed. The failed probe is no error of the
  projection, the size is never negative, and every other field is the record's.
\<close>

theorem rep_item_path_size:
  assumes "map_of flds ''path'' = Some (PStr p)"
  shows "\<exists>d n. rep fs (Item flds) expand = Inr (PDict d)
           \<and> map_of d ''path'' = None
           \<and> map_of d ''size'' = Some (PInt n)
           \<and> n = (case fs p of Some b \<Rightarrow> int b | None \<Rightarrow> 0)
           \<and> 0 \<le> n
           \<and> (\<forall>k. k \<noteq> ''path'' \<and> k \<noteq> ''size'' \<longrightarrow> map_of d k = map_of flds k)"
  unfolding rep_Item_PStr [OF assms]
  by (simp add: update_conv' delete_conv' split: option.splits)

theorem rep_item_path_size_witness:
  "map_of [(''id'', PInt 1), (''path'', PStr ''lost.mp3'')] ''path'' = Some (PStr ''lost.mp3'')
   \<and> (\<exists>d n. rep example_fs (Item [(''id'', PInt 1), (''path'', PStr ''lost.mp3'')]) False
                = Inr (PDict d)
           \<and> map_of d ''path'' = None
           \<and> map_of d ''size'' = Some (PInt n)
           \<and> n = (case example_fs ''lost.mp3'' of Some b \<Rightarrow> int b | None \<Rightarrow> 0)
           \<and> 0 \<le> n
           \<and> (\<forall>k. k \<noteq> ''path'' \<and> k \<noteq> ''size'' \<longrightarrow>
                 map_of d k = map_of [(''id'', PInt 1), (''path'', PStr ''lost.mp3'')] k))
   \<and> rep example_fs (Item [(''id'', PInt 1), (''path'', PStr ''lost.mp3'')]) False
        = Inr (PDict [(''id'', PInt 1), (''size'', PInt 0)])
   \<and> rep example_fs track1 False = Inr (PDict [(''id'', PInt 1), (''size'', PInt 1000)])"
proof -
  have h: "map_of [(''id'', PInt 1), (''path'', PStr ''lost.mp3'')] ''path''
             = Some (PStr ''lost.mp3'')"
    by simp
  have lost: "rep example_fs (Item [(''id'', PInt 1), (''path'', PStr ''lost.mp3'')]) False
        = Inr (PDict [(''id'', PInt 1), (''size'', PInt 0)])"
    by code_simp
  have found: "rep example_fs track1 False
        = Inr (PDict [(''id'', PInt 1), (''size'', PInt 1000)])"
    by code_simp
  from rep_item_path_size [OF h, of example_fs False] h lost found
  show ?thesis by blast
qed

text \<open>
  C7. The projection of a Release, a record with a field \<^verbatim>\<open>artpath\<close>, has no key
  \<^verbatim>\<open>artpath\<close> and keeps every other field of the record. With \<open>expand\<close>, its key \<^verbatim>\<open>items\<close>
  holds the projections without expansion of the release's tracks, in order (\<open>reps\<close> is
  that list, when every track has one), and that is the one key added. Without \<open>expand\<close>
  nothing is added: the projection has no key \<^verbatim>\<open>items\<close>, \<^verbatim>\<open>items\<close> being no native field of
  a release.
\<close>

theorem rep_album_expand:
  assumes "map_of flds ''artpath'' = Some v"
  shows "(list_all2 (\<lambda>t r. rep fs t False = Inr r) tracks reps \<longrightarrow>
            (\<exists>d. rep fs (Album flds tracks) True = Inr (PDict d)
               \<and> map_of d ''artpath'' = None
               \<and> map_of d ''items'' = Some (PList reps)
               \<and> (\<forall>k. k \<noteq> ''artpath'' \<and> k \<noteq> ''items'' \<longrightarrow> map_of d k = map_of flds k)))
         \<and> (\<exists>d. rep fs (Album flds tracks) False = Inr (PDict d)
               \<and> d = AList.delete ''artpath'' flds
               \<and> map_of d ''artpath'' = None
               \<and> (\<forall>k. k \<noteq> ''artpath'' \<longrightarrow> map_of d k = map_of flds k))
         \<and> (map_of flds ''items'' = None \<longrightarrow>
            (\<exists>d. rep fs (Album flds tracks) False = Inr (PDict d)
               \<and> map_of d ''artpath'' = None
               \<and> map_of d ''items'' = None
               \<and> (\<forall>k. k \<noteq> ''artpath'' \<longrightarrow> map_of d k = map_of flds k)))"
proof (intro conjI impI)
  assume "list_all2 (\<lambda>t r. rep fs t False = Inr r) tracks reps"
  then have "rep_items fs tracks = Inr reps" by (simp add: rep_items_list_all2)
  from rep_Album_with_items [OF assms this]
  show "\<exists>d. rep fs (Album flds tracks) True = Inr (PDict d)
               \<and> map_of d ''artpath'' = None
               \<and> map_of d ''items'' = Some (PList reps)
               \<and> (\<forall>k. k \<noteq> ''artpath'' \<and> k \<noteq> ''items'' \<longrightarrow> map_of d k = map_of flds k)"
    by (simp add: update_conv' delete_conv')
next
  show "\<exists>d. rep fs (Album flds tracks) False = Inr (PDict d)
               \<and> d = AList.delete ''artpath'' flds
               \<and> map_of d ''artpath'' = None
               \<and> (\<forall>k. k \<noteq> ''artpath'' \<longrightarrow> map_of d k = map_of flds k)"
    unfolding rep_Album_without_items [OF assms] by (simp add: delete_conv')
next
  assume "map_of flds ''items'' = None"
  then show "\<exists>d. rep fs (Album flds tracks) False = Inr (PDict d)
               \<and> map_of d ''artpath'' = None
               \<and> map_of d ''items'' = None
               \<and> (\<forall>k. k \<noteq> ''artpath'' \<longrightarrow> map_of d k = map_of flds k)"
    unfolding rep_Album_without_items [OF assms] by (simp add: delete_conv')
qed

theorem rep_album_expand_witness:
  "map_of [(''id'', PInt 10), (''artpath'', PStr ''cover.jpg'')] ''artpath''
     = Some (PStr ''cover.jpg'')
   \<and> list_all2 (\<lambda>t r. rep example_fs t False = Inr r) [track1, track2]
        [PDict [(''id'', PInt 1), (''size'', PInt 1000)],
         PDict [(''id'', PInt 2), (''size'', PInt 2000)]]
   \<and> map_of [(''id'', PInt 10), (''artpath'', PStr ''cover.jpg'')] ''items'' = None
   \<and> (\<exists>d. rep example_fs release1 True = Inr (PDict d)
         \<and> map_of d ''artpath'' = None
         \<and> map_of d ''items''
             = Some (PList [PDict [(''id'', PInt 1), (''size'', PInt 1000)],
                            PDict [(''id'', PInt 2), (''size'', PInt 2000)]])
         \<and> (\<forall>k. k \<noteq> ''artpath'' \<and> k \<noteq> ''items'' \<longrightarrow>
               map_of d k = map_of [(''id'', PInt 10), (''artpath'', PStr ''cover.jpg'')] k))
   \<and> (\<exists>d. rep example_fs release1 False = Inr (PDict d)
         \<and> map_of d ''artpath'' = None
         \<and> map_of d ''items'' = None
         \<and> (\<forall>k. k \<noteq> ''artpath'' \<longrightarrow>
               map_of d k = map_of [(''id'', PInt 10), (''artpath'', PStr ''cover.jpg'')] k))
   \<and> rep example_fs release1 True
       = Inr (PDict [(''id'', PInt 10),
                     (''items'', PList [PDict [(''id'', PInt 1), (''size'', PInt 1000)],
                                        PDict [(''id'', PInt 2), (''size'', PInt 2000)]])])
   \<and> rep example_fs release1 False = Inr (PDict [(''id'', PInt 10)])"
proof -
  have h: "map_of [(''id'', PInt 10), (''artpath'', PStr ''cover.jpg'')] ''artpath''
     = Some (PStr ''cover.jpg'')"
    by simp
  have ts: "list_all2 (\<lambda>t r. rep example_fs t False = Inr r) [track1, track2]
        [PDict [(''id'', PInt 1), (''size'', PInt 1000)],
         PDict [(''id'', PInt 2), (''size'', PInt 2000)]]"
    by code_simp
  have ni: "map_of [(''id'', PInt 10), (''artpath'', PStr ''cover.jpg'')] ''items'' = None"
    by simp
  have full: "rep example_fs release1 True
       = Inr (PDict [(''id'', PInt 10),
                     (''items'', PList [PDict [(''id'', PInt 1), (''size'', PInt 1000)],
                                        PDict [(''id'', PInt 2), (''size'', PInt 2000)]])])"
    by code_simp
  have plain: "rep example_fs release1 False = Inr (PDict [(''id'', PInt 10)])"
    by code_simp
  from rep_album_expand [OF h, of example_fs "[track1, track2]"
      "[PDict [(''id'', PInt 1), (''size'', PInt 1000)],
        PDict [(''id'', PInt 2), (''size'', PInt 2000)]]"] ts ni
  have "(\<exists>d. rep example_fs release1 True = Inr (PDict d)
         \<and> map_of d ''artpath'' = None
         \<and> map_of d ''items''
             = Some (PList [PDict [(''id'', PInt 1), (''size'', PInt 1000)],
                            PDict [(''id'', PInt 2), (''size'', PInt 2000)]])
         \<and> (\<forall>k. k \<noteq> ''artpath'' \<and> k \<noteq> ''items'' \<longrightarrow>
               map_of d k = map_of [(''id'', PInt 10), (''artpath'', PStr ''cover.jpg'')] k))
   \<and> (\<exists>d. rep example_fs release1 False = Inr (PDict d)
         \<and> map_of d ''artpath'' = None
         \<and> map_of d ''items'' = None
         \<and> (\<forall>k. k \<noteq> ''artpath'' \<longrightarrow>
               map_of d k = map_of [(''id'', PInt 10), (''artpath'', PStr ''cover.jpg'')] k))"
    unfolding release1_def by blast
  with h ts ni full plain show ?thesis by blast
qed

text \<open>
  C10. The projection of a record that is neither a Track nor a Release is \<^verbatim>\<open>None\<close>, not
  a mapping, for both values of \<open>expand\<close>; the generator serializes it as \<^verbatim>\<open>null\<close>.
\<close>

theorem rep_other_none:
  \<open>rep fs (Other flds) expand = Inr PNone
   \<and> dumps PNone = ''null''
   \<and> (\<exists>frags. json_generator fs [Other flds] root = Inr frags
        \<and> concat frags = ''{"'' @ root @ ''":[null]}'')\<close>
  by (simp add: json_generator_def)

subsection \<open>The streaming encoder\<close>

lemma join_Cons_if: "join sep (t # ts) = t @ (if ts = [] then [] else sep @ join sep ts)"
  by (cases ts) simp_all

lemma json_loop_Inr:
  "rep_items fs E = Inr ps \<Longrightarrow>
   \<exists>body. json_loop fs first E = Inr body
     \<and> concat body = (if first \<or> E = [] then [] else '','') @ join '','' (map dumps ps)"
proof (induction E arbitrary: first ps)
  case Nil
  then show ?case by simp
next
  case (Cons item items)
  from Cons.prems obtain r rs where r: "rep fs item False = Inr r"
    and rs: "rep_items fs items = Inr rs" and ps: "ps = r # rs"
    by (auto split: sum.splits)
  from Cons.IH [OF rs, of False] obtain rest where rest: "json_loop fs False items = Inr rest"
    and c: "concat rest = (if items = [] then [] else '','') @ join '','' (map dumps rs)"
    by auto
  have "items = [] \<Longrightarrow> rs = []" using rs by simp
  moreover have "rs = [] \<Longrightarrow> items = []" using rs by (cases items) (auto split: sum.splits)
  ultimately show ?case using r rest c ps
    by (auto simp: join_Cons_if)
qed

lemma json_loop_Inl: "rep_items fs E = Inl e \<Longrightarrow> json_loop fs first E = Inl e"
  by (induction E arbitrary: first) (auto split: sum.splits)

text \<open>
  C2. For every sequence of entities \<open>E\<close> with the projections \<open>ps\<close> and every root name,
  the fragments of the generator concatenate to the eager text
  \<^verbatim>\<open>{"<root>":[p1,p2,...]}\<close> of the serialized projections, with commas between two
  entities only; for no entity and the root \<^verbatim>\<open>items\<close> that is \<^verbatim>\<open>{"items":[]}\<close>.
\<close>

theorem json_generator_eager:
  \<open>(list_all2 (\<lambda>e p. rep fs e False = Inr p) E ps \<longrightarrow>
      (\<exists>frags. json_generator fs E root = Inr frags
         \<and> concat frags = eager_json root (map dumps ps)))
   \<and> (\<exists>frags. json_generator fs [] ''items'' = Inr frags \<and> concat frags = ''{"items":[]}'')\<close>
proof -
  have "\<exists>frags. json_generator fs E root = Inr frags
          \<and> concat frags = eager_json root (map dumps ps)"
    if "list_all2 (\<lambda>e p. rep fs e False = Inr p) E ps"
  proof -
    from that have "rep_items fs E = Inr ps" by (simp add: rep_items_list_all2)
    from json_loop_Inr [OF this, of True] obtain body where
      "json_loop fs True E = Inr body" "concat body = join '','' (map dumps ps)"
      by auto
    then show ?thesis by (simp add: json_generator_def eager_json_def)
  qed
  moreover
  have \<open>\<exists>frags. json_generator fs [] ''items'' = Inr frags \<and> concat frags = ''{"items":[]}''\<close>
    by (simp add: json_generator_def)
  ultimately show ?thesis by blast
qed

theorem json_generator_eager_witness:
  \<open>list_all2 (\<lambda>e p. rep example_fs e False = Inr p) [track1, track2]
        [PDict [(''id'', PInt 1), (''size'', PInt 1000)],
         PDict [(''id'', PInt 2), (''size'', PInt 2000)]]
   \<and> (\<exists>frags. json_generator example_fs [track1, track2] ''items'' = Inr frags
         \<and> concat frags = ''{"items":[{"id": 1, "size": 1000},{"id": 2, "size": 2000}]}'')\<close>
proof -
  have ts: "list_all2 (\<lambda>e p. rep example_fs e False = Inr p) [track1, track2]
        [PDict [(''id'', PInt 1), (''size'', PInt 1000)],
         PDict [(''id'', PInt 2), (''size'', PInt 2000)]]"
    by code_simp
  have lit: \<open>eager_json ''items''
        (map dumps [PDict [(''id'', PInt 1), (''size'', PInt 1000)],
                    PDict [(''id'', PInt 2), (''size'', PInt 2000)]])
      = ''{"items":[{"id": 1, "size": 1000},{"id": 2, "size": 2000}]}''\<close>
    by code_simp
  from json_generator_eager [of example_fs "[track1, track2]"
      "[PDict [(''id'', PInt 1), (''size'', PInt 1000)],
        PDict [(''id'', PInt 2), (''size'', PInt 2000)]]" "''items''"] ts
  have "\<exists>frags. json_generator example_fs [track1, track2] ''items'' = Inr frags
         \<and> concat frags = eager_json ''items''
        (map dumps [PDict [(''id'', PInt 1), (''size'', PInt 1000)],
                    PDict [(''id'', PInt 2), (''size'', PInt 2000)]])"
    by blast
  then show ?thesis unfolding lit using ts by blast
qed

subsection \<open>The responders\<close>




text \<open>
  C9. The responder of \<^verbatim>\<open>resource_query\<close> splits the query at every \<^verbatim>\<open>/\<close>, gives the list
  of the segments to the query function as it is, and answers with the generator over
  the entities that the function returns, under the root \<^verbatim>\<open>results\<close>. The segments are
  the query: joined with \<^verbatim>\<open>/\<close> they give it back, and none holds a \<^verbatim>\<open>/\<close>.
\<close>

theorem resource_query_delegates:
  "resource_query name fs query_func query
     = Streamed (json_generator fs (query_func (split CHR ''/'' query)) ''results'')
   \<and> join ''/'' (split CHR ''/'' query) = query
   \<and> CHR ''/'' \<notin> set (concat (split CHR ''/'' query))"
  using split_no_sep [of _ "CHR ''/''" query]
  by (auto simp: resource_query_def join_split)

text \<open>
  C4. The responder of \<^verbatim>\<open>resource_list\<close> never calls the function it decorates: it streams
  \<^verbatim>\<open>g.lib.items()\<close> under the root name, whatever the function enumerates. The route of
  the album collection therefore streams the tracks of the library under \<^verbatim>\<open>albums\<close>, and
  not the releases that \<^verbatim>\<open>all_albums\<close> returns.
\<close>

theorem all_albums_streams_items:
  \<open>all_albums fs lib = Streamed (json_generator fs (lib_items lib) ''albums'')
   \<and> all_albums example_fs example_lib
       = Streamed (Inr [''{"albums":['', ''{"id": 1, "size": 1000}'', '','',
                        ''{"id": 2, "size": 2000}'', '']}''])
   \<and> json_generator example_fs (lib_albums example_lib) ''albums''
       = Inr [''{"albums":['', ''{"id": 10}'', '']}'']\<close>
proof -
  have \<open>all_albums fs lib = Streamed (json_generator fs (lib_items lib) ''albums'')\<close>
    by (simp add: all_albums_def resource_list_def)
  moreover
  have \<open>all_albums example_fs example_lib
       = Streamed (Inr [''{"albums":['', ''{"id": 1, "size": 1000}'', '','',
                        ''{"id": 2, "size": 2000}'', '']}''])\<close>
    by code_simp
  moreover
  have \<open>json_generator example_fs (lib_albums example_lib) ''albums''
       = Inr [''{"albums":['', ''{"id": 10}'', '']}'']\<close>
    by code_simp
  ultimately show ?thesis by blast
qed

subsection \<open>The projection leaves the store's objects alone\<close>

lemma frame_length: "take (length a) b = a \<Longrightarrow> length a \<le> length b"
proof -
  assume "take (length a) b = a"
  then have "length (take (length a) b) = length a" by simp
  then show ?thesis by simp
qed

lemma frame_trans:
  "take (length a) b = a \<Longrightarrow> take (length b) c = b \<Longrightarrow> take (length a) c = a"
  by (metis frame_length min.absorb2 take_take min.commute)

lemma frame_update:
  "take (length a) b = a \<Longrightarrow> length a \<le> i \<Longrightarrow> take (length a) (b[i := x]) = a"
  by simp

lemma frame_nth: "take (length a) b = a \<Longrightarrow> i < length a \<Longrightarrow> b ! i = a ! i"
  by (metis nth_take)

lemma rep_st_Item_frame:
  "rep_st fs (ItemRef a) expand h = (r, h') \<Longrightarrow>
     take (length h) h' = h \<and> (\<forall>out. r = Inr (Some out) \<longrightarrow> out = length h \<and> out < length h')"
  by (auto simp: Let_def split: if_splits option.splits sum.splits error.splits)

lemma rep_st_Other_frame:
  "rep_st fs (OtherRef a) expand h = (r, h') \<Longrightarrow>
     take (length h) h' = h \<and> (\<forall>out. r = Inr (Some out) \<longrightarrow> out = length h \<and> out < length h')"
  by (auto simp: Let_def split: if_splits)

lemma rep_st_Album_unfold:
  "rep_st fs (AlbumRef a tracks) expand h =
     (if length h \<le> a then (Inl TypeError, h)
      else if map_of (h ! a) ''artpath'' = None
        then (Inl (KeyError ''artpath''), h @ [h ! a])
      else if \<not> expand then (Inr (Some (length h)), h @ [AList.delete ''artpath'' (h ! a)])
      else (case rep_items_st fs tracks (h @ [AList.delete ''artpath'' (h ! a)]) of
              (Inl e, h3) \<Rightarrow> (Inl e, h3)
            | (Inr reps, h3) \<Rightarrow>
                (Inr (Some (length h)),
                 h3[length h := AList.update ''items'' (PList (map (deref h3) reps))
                                  (h3 ! length h)])))"
  by (auto simp: Let_def split: option.splits)

lemma rep_st_frame:
  "rep_st fs obj expand h = (r, h') \<Longrightarrow>
     take (length h) h' = h \<and> (\<forall>out. r = Inr (Some out) \<longrightarrow> out = length h \<and> out < length h')"
  "rep_items_st fs objs h = (rs, h') \<Longrightarrow>
     take (length h) h' = h
     \<and> (\<forall>refs out. rs = Inr refs \<and> Some out \<in> set refs \<longrightarrow> out < length h')"
proof (induction fs obj expand h and fs objs h arbitrary: r h' and rs h'
    rule: rep_st_rep_items_st.induct)
  case (1 fs a expand h)
  then show ?case by (rule rep_st_Item_frame)
next
  case (2 fs a tracks expand h)
  let ?h2 = "h @ [AList.delete ''artpath'' (h ! a)]"
  show ?case
  proof (cases "\<not> length h \<le> a \<and> map_of (h ! a) ''artpath'' \<noteq> None \<and> expand")
    case False
    then show ?thesis using "2.prems"
      by (auto simp del: rep_st.simps simp add: rep_st_Album_unfold split: if_splits)
  next
    case True
    obtain rs h3 where eq: "rep_items_st fs tracks ?h2 = (rs, h3)"
      by (cases "rep_items_st fs tracks ?h2") auto
    from True obtain v where v: "map_of ((h @ [h ! a]) ! length h) ''artpath'' = Some v"
      by auto
    have "take (length ?h2) h3 = ?h2"
      using "2.IH" [OF _ refl refl v _ _ , of ?h2 rs h3] True eq by simp
    then have f: "take (length h) h3 = h" and l: "length h < length h3"
      using frame_trans [of h ?h2 h3] frame_length [of ?h2 h3] by auto
    show ?thesis using "2.prems" True eq f l
      by (auto simp del: rep_st.simps simp add: rep_st_Album_unfold split: sum.splits)
  qed
next
  case (3 fs a expand h)
  then show ?case by (rule rep_st_Other_frame)
next
  case (4 fs h)
  then show ?case by auto
next
  case (5 fs item items h)
  obtain r1 h1 where eq1: "rep_st fs item False h = (r1, h1)"
    by (cases "rep_st fs item False h") auto
  from "5.IH"(1) [OF eq1] have f1: "take (length h) h1 = h"
    and b1: "\<And>out. r1 = Inr (Some out) \<Longrightarrow> out < length h1"
    by auto
  show ?case
  proof (cases r1)
    case (Inl e)
    then show ?thesis using "5.prems" eq1 f1 by auto
  next
    case (Inr ref)
    obtain r2 h2 where eq2: "rep_items_st fs items h1 = (r2, h2)"
      by (cases "rep_items_st fs items h1") auto
    from "5.IH"(2) [OF eq1 [symmetric] Inr eq2] have f2: "take (length h1) h2 = h1"
      and b2: "\<And>refs out. r2 = Inr refs \<Longrightarrow> Some out \<in> set refs \<Longrightarrow> out < length h2"
      by auto
    have f: "take (length h) h2 = h" using frame_trans [OF f1 f2] .
    have l: "length h1 \<le> length h2" using frame_length [OF f2] .
    show ?thesis using "5.prems" eq1 Inr eq2 f b1 b2 l
      by (fastforce split: sum.splits)
  qed
qed

lemma entity_of_frame:
  "valid h t \<Longrightarrow> take (length h) h' = h \<Longrightarrow> entity_of h' t = entity_of h t \<and> valid h' t"
proof (induction t)
  case (ItemRef a)
  then show ?case using frame_nth [of h h' a] frame_length [of h h'] by auto
next
  case (AlbumRef a tracks)
  then show ?case using frame_nth [of h h' a] frame_length [of h h']
    by (auto simp: list_all_iff)
next
  case (OtherRef a)
  then show ?case using frame_nth [of h h' a] frame_length [of h h'] by auto
qed

lemma entities_of_frame:
  "list_all (valid h) ts \<Longrightarrow> take (length h) h' = h \<Longrightarrow>
     map (entity_of h') ts = map (entity_of h) ts \<and> list_all (valid h') ts"
  using entity_of_frame [of h _ h'] by (auto simp: list_all_iff)

lemma rep_st_Item_link:
  "valid h (ItemRef a) \<Longrightarrow> rep_st fs (ItemRef a) expand h = (r, h') \<Longrightarrow>
     result_of (r, h') = rep fs (entity_of h (ItemRef a)) expand"
  by (auto simp: Let_def result_of_def deref_def nth_append
      split: if_splits option.splits sum.splits error.splits)

lemma rep_st_Other_link:
  "valid h (OtherRef a) \<Longrightarrow> rep_st fs (OtherRef a) expand h = (r, h') \<Longrightarrow>
     result_of (r, h') = rep fs (entity_of h (OtherRef a)) expand"
  by (auto simp: Let_def result_of_def deref_def)

lemma rep_st_link:
  "valid h obj \<Longrightarrow> rep_st fs obj expand h = (r, h') \<Longrightarrow>
     result_of (r, h') = rep fs (entity_of h obj) expand"
  "list_all (valid h) objs \<Longrightarrow> rep_items_st fs objs h = (rs, h') \<Longrightarrow>
     results_of (rs, h') = rep_items fs (map (entity_of h) objs)"
proof (induction fs obj expand h and fs objs h arbitrary: r h' and rs h'
    rule: rep_st_rep_items_st.induct)
  case (1 fs a expand h)
  then show ?case by (rule rep_st_Item_link)
next
  case (2 fs a tracks expand h)
  let ?h2 = "h @ [AList.delete ''artpath'' (h ! a)]"
  from "2.prems"(1) have a: "a < length h" and vt: "list_all (valid h) tracks" by auto
  show ?case
  proof (cases "map_of (h ! a) ''artpath'' \<noteq> None \<and> expand")
    case False
    then show ?thesis using "2.prems" a
      by (auto simp del: rep_st.simps simp add: rep_st_Album_unfold result_of_def deref_def
          split: if_splits)
  next
    case True
    obtain rs h3 where eq: "rep_items_st fs tracks ?h2 = (rs, h3)"
      by (cases "rep_items_st fs tracks ?h2") auto
    from True a obtain v where v: "map_of ((h @ [h ! a]) ! length h) ''artpath'' = Some v"
      and v': "map_of (h ! a) ''artpath'' = Some v"
      by auto
    have fr: "take (length h) ?h2 = h" by simp
    from entities_of_frame [OF vt fr]
    have ents: "map (entity_of ?h2) tracks = map (entity_of h) tracks"
      and vt2: "list_all (valid ?h2) tracks" by auto
    have "results_of (rs, h3) = rep_items fs (map (entity_of ?h2) tracks)"
      using "2.IH" [OF _ refl refl v _ _ _ , of ?h2 rs h3] True eq a vt2 by simp
    then have link: "rep_items fs (map (entity_of h) tracks) = results_of (rs, h3)"
      by (simp add: ents)
    from rep_st_frame(2) [OF eq] have f3: "take (length ?h2) h3 = ?h2" by simp
    then have out: "h3 ! length h = AList.delete ''artpath'' (h ! a)"
      and l: "length h < length h3"
      using frame_nth [of ?h2 h3 "length h"] frame_length [of ?h2 h3] by auto
    show ?thesis using "2.prems"(2) True eq a link out l v'
      by (auto simp del: rep_st.simps
          simp add: rep_st_Album_unfold result_of_def results_of_def deref_def
          split: sum.splits)
  qed
next
  case (3 fs a expand h)
  then show ?case by (rule rep_st_Other_link)
next
  case (4 fs h)
  then show ?case by (auto simp: results_of_def)
next
  case (5 fs item items h)
  from "5.prems"(1) have vi: "valid h item" and vis: "list_all (valid h) items" by auto
  obtain r1 h1 where eq1: "rep_st fs item False h = (r1, h1)"
    by (cases "rep_st fs item False h") auto
  from "5.IH"(1) [OF vi eq1]
  have l1: "rep fs (entity_of h item) False = result_of (r1, h1)" by simp
  from rep_st_frame(1) [OF eq1] have f1: "take (length h) h1 = h"
    and b1: "\<And>out. r1 = Inr (Some out) \<Longrightarrow> out < length h1"
    by auto
  show ?case
  proof (cases r1)
    case (Inl e)
    then show ?thesis using "5.prems"(2) eq1 l1
      by (auto simp: results_of_def result_of_def)
  next
    case (Inr ref)
    obtain r2 h2 where eq2: "rep_items_st fs items h1 = (r2, h2)"
      by (cases "rep_items_st fs items h1") auto
    from entities_of_frame [OF vis f1]
    have ents: "map (entity_of h1) items = map (entity_of h) items"
      and vis1: "list_all (valid h1) items" by auto
    from "5.IH"(2) [OF eq1 [symmetric] Inr vis1 eq2]
    have l2: "rep_items fs (map (entity_of h) items) = results_of (r2, h2)"
      by (simp add: ents)
    from rep_st_frame(2) [OF eq2] have f2: "take (length h1) h2 = h1" by simp
    have d: "deref h2 ref = deref h1 ref"
      using b1 [of "the ref"] Inr frame_nth [OF f2, of "the ref"]
      by (cases ref) (auto simp: deref_def)
    show ?thesis using "5.prems"(2) eq1 Inr eq2 l1 l2 d
      by (auto simp: results_of_def result_of_def split: sum.splits)
  qed
qed

text \<open>
  C8. A call of \<^verbatim>\<open>_rep\<close>, for every record and both values of \<open>expand\<close>, whether it
  returns or raises, leaves every object of the store as it was: the store before the
  call is a prefix of the store after it, so the source record and its tracks keep
  their fields. The mapping it returns is a new object, and all deletions and additions
  are made there. For a reference whose addresses are in the store, the record reads
  the same after the call, and the value of the result is the projection \<open>rep\<close> of the
  record.
\<close>

theorem rep_st_source_unchanged:
  assumes "rep_st fs obj expand h = (r, h')"
  shows "take (length h) h' = h
     \<and> (\<forall>out. r = Inr (Some out) \<longrightarrow> length h \<le> out \<and> out < length h')
     \<and> (valid h obj \<longrightarrow>
          entity_of h' obj = entity_of h obj
          \<and> result_of (r, h') = rep fs (entity_of h obj) expand)"
proof -
  from rep_st_frame(1) [OF assms] have f: "take (length h) h' = h"
    and b: "\<forall>out. r = Inr (Some out) \<longrightarrow> length h \<le> out \<and> out < length h'"
    by auto
  have "entity_of h' obj = entity_of h obj
          \<and> result_of (r, h') = rep fs (entity_of h obj) expand" if "valid h obj"
    using entity_of_frame [OF that f] rep_st_link(1) [OF that assms] by simp
  with f b show ?thesis by blast
qed

theorem rep_st_source_unchanged_witness:
  "rep_st example_fs example_obj True example_store =
     (Inr (Some 3),
      example_store @
      [[(''id'', PInt 10),
        (''items'', PList [PDict [(''id'', PInt 1), (''size'', PInt 1000)],
                           PDict [(''id'', PInt 2), (''size'', PInt 2000)]])],
       [(''id'', PInt 1), (''size'', PInt 1000)],
       [(''id'', PInt 2), (''size'', PInt 2000)]])
   \<and> valid example_store example_obj
   \<and> entity_of example_store example_obj = release1
   \<and> take (length example_store) (snd (rep_st example_fs example_obj True example_store))
        = example_store
   \<and> entity_of (snd (rep_st example_fs example_obj True example_store)) example_obj = release1
   \<and> result_of (rep_st example_fs example_obj True example_store)
        = rep example_fs release1 True"
proof -
  have run: "rep_st example_fs example_obj True example_store =
     (Inr (Some 3),
      example_store @
      [[(''id'', PInt 10),
        (''items'', PList [PDict [(''id'', PInt 1), (''size'', PInt 1000)],
                           PDict [(''id'', PInt 2), (''size'', PInt 2000)]])],
       [(''id'', PInt 1), (''size'', PInt 1000)],
       [(''id'', PInt 2), (''size'', PInt 2000)]])"
    by code_simp
  have v: "valid example_store example_obj" by code_simp
  have e: "entity_of example_store example_obj = release1" by code_simp
  from rep_st_source_unchanged [OF run] v e run
  show ?thesis by simp
qed

end
